theory Spec2Isabelle
  imports Main
begin

section \<open>Data model\<close>

text \<open>
  The launch file \<^verbatim>\<open>node_launcher.launch.py\<close> works on the value that
  \<^verbatim>\<open>yaml.safe_load\<close> returns: \<^verbatim>\<open>None\<close>, booleans, numbers, strings, lists and
  dictionaries. A dictionary keeps its insertion order and has no two equal keys, so it is
  an association list; the keys are strings, as in the documents the launcher reads. A
  float is carried as mantissa and exponent: no function here looks into a number.
  A \<open>char\<close> stands for one code point below 256; strings with other code points are
  outside this model, and so are the timestamps, binary values and sets of YAML, which the
  functions here treat like numbers. A document is a tree: no dictionary is reached at
  two places, as it could be through a YAML alias.
\<close>

datatype yaml =
    YNone
  | YBool bool
  | YInt int
  | YFloat int int
  | YStr string
  | YList "yaml list"
  | YDict "(string \<times> yaml) list"

text \<open>\<^verbatim>\<open>type(x).__name__\<close>, which the error messages interpolate.\<close>

fun type_name :: "yaml \<Rightarrow> string" where
  "type_name YNone = ''NoneType''"
| "type_name (YBool _) = ''bool''"
| "type_name (YInt _) = ''int''"
| "type_name (YFloat _ _) = ''float''"
| "type_name (YStr _) = ''str''"
| "type_name (YList _) = ''list''"
| "type_name (YDict _) = ''dict''"

text \<open>
  Every \<^verbatim>\<open>raise ValueError(f"...")\<close> of the source is one constructor, carrying the
  values its message interpolates, in the order of the message. The last constructor is
  the exception of \<^verbatim>\<open>get_package_share_directory\<close> for a package that is not installed.
\<close>

datatype error =
    NotADictionary
      \<comment> \<open>YAML configuration must be a dictionary at every level\<close>
  | KeyCount nat "string list"
      \<comment> \<open>Expected exactly one key per level, but found \<open>n\<close> keys: \<open>keys\<close>\<close>
  | InnerNotADictionary string string
      \<comment> \<open>Expected a dictionary under key \<open>current_key\<close>, but got \<open>type name\<close>\<close>
  | RosParametersNotADictionary string
      \<comment> \<open>'ros\_\_parameters' under node \<open>current_key\<close> must be a dictionary.\<close>
  | RemappingsNotADictionary
      \<comment> \<open>Expected 'ros\_remappings' to be a dictionary.\<close>
  | SectionNotAList string
      \<comment> \<open>Expected a list for \<open>section_name\<close> remappings.\<close>
  | EntryNotAString string string
      \<comment> \<open>Each remapping in \<open>section_name\<close> must be a string, got \<open>type name\<close>\<close>
  | InvalidFormat string string
      \<comment> \<open>Invalid format in \<open>section_name\<close>: \<open>item\<close> (expected 'from:to')\<close>
  | EmptyField string string
      \<comment> \<open>Empty 'from' or 'to' field in \<open>section_name\<close> remapping: \<open>item\<close>\<close>
  | ActionsNotAList
      \<comment> \<open>Expected a list for 'actions' remappings.\<close>
  | ActionNotAString string
      \<comment> \<open>Each action remapping must be a string, got \<open>type name\<close>\<close>
  | ActionInvalidFormat string
      \<comment> \<open>Invalid format in action remapping: \<open>item\<close> (expected 'from:to')\<close>
  | ActionEmptyField string
      \<comment> \<open>Empty 'from' or 'to' in action remapping: \<open>item\<close>\<close>
  | PackageNotFoundError string

section \<open>String operations of the Python library\<close>

text \<open>\<^verbatim>\<open>str.split(sep)\<close> with a one-character separator: a cut at every occurrence.\<close>

fun str_split :: "string \<Rightarrow> char \<Rightarrow> string list" where
  "str_split [] sep = [[]]"
| "str_split (c # cs) sep =
     (if c = sep then [] # str_split cs sep
      else (case str_split cs sep of
              [] \<Rightarrow> [[c]]
            | p # ps \<Rightarrow> (c # p) # ps))"

text \<open>
  \<^verbatim>\<open>str.isspace\<close> on one character, for the code points below 256: tab to carriage
  return, the four separators 0x1C to 0x1F, the space, NEL and the no-break space.
\<close>

definition py_isspace :: "char \<Rightarrow> bool" where
  "py_isspace c \<longleftrightarrow>
     c \<in> set [CHR 0x09, CHR 0x0A, CHR 0x0B, CHR 0x0C, CHR 0x0D, CHR 0x1C, CHR 0x1D,
              CHR 0x1E, CHR 0x1F, CHR 0x20, CHR 0x85, CHR 0xA0]"

text \<open>\<^verbatim>\<open>str.strip()\<close>: whitespace removed at both ends.\<close>

definition strip :: "string \<Rightarrow> string" where
  "strip s = rev (dropWhile py_isspace (rev (dropWhile py_isspace s)))"

text \<open>\<^verbatim>\<open>os.path.join(a, b)\<close> of \<^verbatim>\<open>posixpath\<close>, for two components.\<close>

definition path_join :: "string \<Rightarrow> string \<Rightarrow> string" where
  "path_join a b =
     (if b \<noteq> [] \<and> hd b = CHR ''/'' then b
      else if a = [] \<or> last a = CHR ''/'' then a @ b
      else a @ ''/'' @ b)"

section \<open>The namespace resolver\<close>

text \<open>
  \<^verbatim>\<open>get_node_config_and_ns(yaml_config, namespace="")\<close>. The first equation is the
  level with exactly one key, the second the level with another number of keys, the
  third the value that is not a dictionary.
\<close>

fun get_node_config_and_ns :: "yaml \<Rightarrow> string \<Rightarrow> error + (yaml \<times> string)" where
  "get_node_config_and_ns (YDict [(current_key, inner_yaml_config)]) namespace =
     (case inner_yaml_config of
        YDict inner \<Rightarrow>
          (case map_of inner ''ros__parameters'' of
             Some ros_parameters \<Rightarrow>
               (case ros_parameters of
                  YDict _ \<Rightarrow> Inr (YDict [(current_key, inner_yaml_config)], namespace)
                | _ \<Rightarrow> Inl (RosParametersNotADictionary current_key))
           | None \<Rightarrow>
               get_node_config_and_ns inner_yaml_config
                 (if namespace \<noteq> [] then namespace @ ''/'' @ current_key else current_key))
      | _ \<Rightarrow> Inl (InnerNotADictionary current_key (type_name inner_yaml_config)))"
| "get_node_config_and_ns (YDict yaml_config) namespace =
     Inl (KeyCount (length yaml_config) (map fst yaml_config))"
| "get_node_config_and_ns _ namespace = Inl NotADictionary"

section \<open>The two patterns of the path expander\<close>

text \<open>
  \<^verbatim>\<open>s.startswith(p)\<close>, returning what follows the prefix.
\<close>

fun strip_prefix :: "string \<Rightarrow> string \<Rightarrow> string option" where
  "strip_prefix [] s = Some s"
| "strip_prefix (p # ps) [] = None"
| "strip_prefix (p # ps) (c # cs) = (if p = c then strip_prefix ps cs else None)"

text \<open>The one character that \<^verbatim>\<open>.\<close> of a Python pattern does not match.\<close>

definition newline :: char where
  "newline = CHR 0x0A"

text \<open>
  \<^verbatim>\<open>package://([^/]+)/(.+)\<close> tried at the start of \<open>s\<close>; the result is
  \<^verbatim>\<open>(group(1), group(2))\<close>. The first group is greedy and cannot give characters
  back: a shorter run would be followed by a character that is not a slash. The second
  group is greedy and nothing follows it, so it runs to the end of the line.
\<close>

definition match_pattern1 :: "string \<Rightarrow> (string \<times> string) option" where
  "match_pattern1 s =
     (case strip_prefix ''package://'' s of
        None \<Rightarrow> None
      | Some r \<Rightarrow>
          (let package = takeWhile (\<lambda>c. c \<noteq> CHR ''/'') r in
           if package = [] then None
           else (case dropWhile (\<lambda>c. c \<noteq> CHR ''/'') r of
                   [] \<Rightarrow> None
                 | _ # r' \<Rightarrow>
                     (let relative_path = takeWhile (\<lambda>c. c \<noteq> newline) r' in
                      if relative_path = [] then None
                      else Some (package, relative_path)))))"

text \<open>\<^verbatim>\<open>file://(/.+)\<close> tried at the start of \<open>s\<close>; the result is \<^verbatim>\<open>group(1)\<close>.\<close>

definition match_pattern2 :: "string \<Rightarrow> string option" where
  "match_pattern2 s =
     (case strip_prefix ''file://'' s of
        None \<Rightarrow> None
      | Some r \<Rightarrow>
          (case r of
             [] \<Rightarrow> None
           | c # r' \<Rightarrow>
               if c \<noteq> CHR ''/'' then None
               else (let path = takeWhile (\<lambda>c. c \<noteq> newline) r' in
                     if path = [] then None else Some (c # path))))"

text \<open>
  \<^verbatim>\<open>re.search(pattern, value)\<close>: the pattern is tried at every position from the
  left, and the first position where it matches gives the result.
\<close>

fun re_search :: "(string \<Rightarrow> 'a option) \<Rightarrow> string \<Rightarrow> 'a option" where
  "re_search m [] = m []"
| "re_search m (c # cs) =
     (case m (c # cs) of
        Some g \<Rightarrow> Some g
      | None \<Rightarrow> re_search m cs)"

section \<open>The path expander\<close>

text \<open>
  \<^verbatim>\<open>expand_filenames(yaml_parameters)\<close> rewrites the dictionary in place and returns
  nothing; the package index is the parameter \<open>lookup\<close>, which is \<open>None\<close> where
  \<^verbatim>\<open>get_package_share_directory\<close> raises. The model returns the dictionary as it is
  when the call ends, together with the exception that ended it, if any: what was
  rewritten before an exception stays rewritten. \<open>expand_items\<close> is the loop over
  \<^verbatim>\<open>yaml_parameters.items()\<close>; an assignment to \<^verbatim>\<open>yaml_parameters[param_id]\<close>
  replaces the value of the entry the loop is at. \<open>expand_string\<close> is the body of the
  loop for a string value: the new value, or the exception of the package index.
\<close>

definition expand_string :: "(string \<Rightarrow> string option) \<Rightarrow> string \<Rightarrow> error + string" where
  "expand_string lookup v =
     (case re_search match_pattern1 v of
        Some (package_name, relative_path) \<Rightarrow>
          (case lookup package_name of
             None \<Rightarrow> Inl (PackageNotFoundError package_name)
           | Some package \<Rightarrow> Inr (path_join package relative_path))
      | None \<Rightarrow>
          (case re_search match_pattern2 v of
             Some path \<Rightarrow> Inr path
           | None \<Rightarrow> Inr v))"

fun expand_filenames :: "(string \<Rightarrow> string option) \<Rightarrow> yaml \<Rightarrow> yaml \<times> error option"
  and expand_items ::
    "(string \<Rightarrow> string option) \<Rightarrow> (string \<times> yaml) list \<Rightarrow> (string \<times> yaml) list \<times> error option"
where
  "expand_filenames lookup (YDict yaml_parameters) =
     (case expand_items lookup yaml_parameters of
        (yaml_parameters', e) \<Rightarrow> (YDict yaml_parameters', e))"
| "expand_filenames lookup YNone = (YNone, None)"
| "expand_filenames lookup (YBool b) = (YBool b, None)"
| "expand_filenames lookup (YInt i) = (YInt i, None)"
| "expand_filenames lookup (YFloat m x) = (YFloat m x, None)"
| "expand_filenames lookup (YStr s) = (YStr s, None)"
| "expand_filenames lookup (YList l) = (YList l, None)"
| "expand_items lookup [] = ([], None)"
| "expand_items lookup ((param_id, YDict d) # items) =
     (case expand_filenames lookup (YDict d) of
        (v', Some e) \<Rightarrow> ((param_id, v') # items, Some e)
      | (v', None) \<Rightarrow>
          (case expand_items lookup items of
             (items', e) \<Rightarrow> ((param_id, v') # items', e)))"
| "expand_items lookup ((param_id, YStr v) # items) =
     (case expand_string lookup v of
        Inl e \<Rightarrow> ((param_id, YStr v) # items, Some e)
      | Inr v' \<Rightarrow>
          (case expand_items lookup items of
             (items', e) \<Rightarrow> ((param_id, YStr v') # items', e)))"
| "expand_items lookup ((param_id, value) # items) =
     (case expand_items lookup items of
        (items', e) \<Rightarrow> ((param_id, value) # items', e))"

section \<open>The remapping expander\<close>

text \<open>
  The loop of \<^verbatim>\<open>parse_section\<close> over the entries of one section; \<open>result\<close> is the
  list it appends to.
\<close>

fun parse_items ::
  "string \<Rightarrow> yaml list \<Rightarrow> (string \<times> string) list \<Rightarrow> error + (string \<times> string) list"
where
  "parse_items section_name [] result = Inr result"
| "parse_items section_name (YStr item # items) result =
     (let parts = str_split item CHR '':'' in
      if length parts \<noteq> 2 then Inl (InvalidFormat section_name item)
      else
        (let from_topic = strip (parts ! 0); to_topic = strip (parts ! 1) in
         if from_topic = [] \<or> to_topic = [] then Inl (EmptyField section_name item)
         else parse_items section_name items (result @ [(from_topic, to_topic)])))"
| "parse_items section_name (item # items) result =
     Inl (EntryNotAString section_name (type_name item))"

text \<open>
  \<^verbatim>\<open>parse_section(section_name)\<close>, a closure over \<^verbatim>\<open>ros_remappings\<close>.
  \<^verbatim>\<open>ros_remappings.get(section_name)\<close> is \<^verbatim>\<open>None\<close> for an absent key and for a
  key whose value is \<^verbatim>\<open>None\<close>.
\<close>

definition parse_section ::
  "(string \<times> yaml) list \<Rightarrow> string \<Rightarrow> error + (string \<times> string) list"
where
  "parse_section ros_remappings section_name =
     (case map_of ros_remappings section_name of
        None \<Rightarrow> Inr []
      | Some YNone \<Rightarrow> Inr []
      | Some (YList section) \<Rightarrow> parse_items section_name section []
      | Some _ \<Rightarrow> Inl (SectionNotAList section_name))"

definition suffixes :: "string list" where
  "suffixes =
     [''/_action/feedback'', ''/_action/status'', ''/_action/cancel_goal'',
      ''/_action/get_result'', ''/_action/send_goal'']"

text \<open>The loop of \<^verbatim>\<open>get_remappings_for_actions\<close> over \<^verbatim>\<open>actions_yaml\<close>.\<close>

fun action_items :: "yaml list \<Rightarrow> (string \<times> string) list \<Rightarrow> error + (string \<times> string) list"
where
  "action_items [] remapping_list = Inr remapping_list"
| "action_items (YStr item # items) remapping_list =
     (let parts = str_split item CHR '':'' in
      if length parts \<noteq> 2 then Inl (ActionInvalidFormat item)
      else
        (let from_prefix = strip (parts ! 0); to_prefix = strip (parts ! 1) in
         if from_prefix = [] \<or> to_prefix = [] then Inl (ActionEmptyField item)
         else action_items items
                (remapping_list @
                   map (\<lambda>suffix. (from_prefix @ suffix, to_prefix @ suffix)) suffixes)))"
| "action_items (item # items) remapping_list = Inl (ActionNotAString (type_name item))"

fun get_remappings_for_actions :: "yaml \<Rightarrow> error + (string \<times> string) list" where
  "get_remappings_for_actions YNone = Inr []"
| "get_remappings_for_actions (YList actions_yaml) = action_items actions_yaml []"
| "get_remappings_for_actions _ = Inl ActionsNotAList"

fun get_remappings :: "yaml \<Rightarrow> error + (string \<times> string) list" where
  "get_remappings YNone = Inr []"
| "get_remappings (YDict ros_remappings) =
     (case parse_section ros_remappings ''topics'' of
        Inl e \<Rightarrow> Inl e
      | Inr topics \<Rightarrow>
          (case parse_section ros_remappings ''services'' of
             Inl e \<Rightarrow> Inl e
           | Inr services \<Rightarrow>
               (case map_of ros_remappings ''actions'' of
                  None \<Rightarrow> Inr (topics @ services)
                | Some actions_yaml \<Rightarrow>
                    (case get_remappings_for_actions actions_yaml of
                       Inl e \<Rightarrow> Inl e
                     | Inr actions \<Rightarrow> Inr (topics @ services @ actions)))))"
| "get_remappings _ = Inl RemappingsNotADictionary"

text \<open>
  The lines of \<^verbatim>\<open>configure\<close> that produce \<^verbatim>\<open>remapping_list\<close> from the parameter
  block: the expander is called only for a key \<^verbatim>\<open>ros_remappings\<close> that is present
  with a value other than \<^verbatim>\<open>None\<close>.
\<close>

definition configure_remapping_list ::
  "(string \<times> yaml) list \<Rightarrow> error + (string \<times> string) list"
where
  "configure_remapping_list ros_parameters =
     (case map_of ros_parameters ''ros_remappings'' of
        None \<Rightarrow> Inr []
      | Some YNone \<Rightarrow> Inr []
      | Some ros_remappings \<Rightarrow> get_remappings ros_remappings)"

section \<open>Notions of the specification\<close>

text \<open>
  The document with one key per level: the keys \<open>ks\<close> from the outside in, around
  the value \<open>y\<close>.
\<close>

fun nest :: "string list \<Rightarrow> yaml \<Rightarrow> yaml" where
  "nest [] y = y"
| "nest (k # ks) y = YDict [(k, nest ks y)]"

text \<open>\<^verbatim>\<open>sep.join(ks)\<close>.\<close>

fun str_join :: "string \<Rightarrow> string list \<Rightarrow> string" where
  "str_join sep [] = []"
| "str_join sep [k] = k"
| "str_join sep (k # ks) = k @ sep @ str_join sep ks"

text \<open>The value found by following the keys \<open>p\<close> through nested dictionaries.\<close>

fun yaml_at :: "string list \<Rightarrow> yaml \<Rightarrow> yaml option" where
  "yaml_at [] y = Some y"
| "yaml_at (k # ks) (YDict d) =
     (case map_of d k of None \<Rightarrow> None | Some v \<Rightarrow> yaml_at ks v)"
| "yaml_at (k # ks) _ = None"

text \<open>
  The string values of a parameter map: those of its entries and of the entries of its
  nested dictionaries, not the elements of lists.
\<close>

fun param_strings :: "yaml \<Rightarrow> string list"
  and item_strings :: "(string \<times> yaml) list \<Rightarrow> string list"
where
  "param_strings (YDict d) = item_strings d"
| "param_strings YNone = []"
| "param_strings (YBool b) = []"
| "param_strings (YInt i) = []"
| "param_strings (YFloat m x) = []"
| "param_strings (YStr s) = []"
| "param_strings (YList l) = []"
| "item_strings [] = []"
| "item_strings ((k, YDict d) # items) = param_strings (YDict d) @ item_strings items"
| "item_strings ((k, YStr s) # items) = s # item_strings items"
| "item_strings ((k, v) # items) = item_strings items"

text \<open>
  A string contains a substring of the form \<^verbatim>\<open>package://{pkg}/{rest}\<close>: a package
  name of one or more characters other than the slash, and one or more characters of one
  line after the slash that ends it.
\<close>

definition contains_package_uri :: "string \<Rightarrow> bool" where
  "contains_package_uri s \<longleftrightarrow>
     (\<exists>pre pkg rest post.
        s = pre @ ''package://'' @ pkg @ ''/'' @ rest @ post \<and>
        pkg \<noteq> [] \<and> CHR ''/'' \<notin> set pkg \<and> rest \<noteq> [] \<and> newline \<notin> set rest)"

text \<open>
  A string contains a substring of the form \<^verbatim>\<open>file://{path}\<close> whose path starts
  with a slash and goes on for one or more characters of one line.
\<close>

definition contains_file_uri :: "string \<Rightarrow> bool" where
  "contains_file_uri s \<longleftrightarrow>
     (\<exists>pre path post.
        s = pre @ ''file://'' @ ''/'' @ path @ post \<and> path \<noteq> [] \<and> newline \<notin> set path)"

text \<open>A value that is neither a string nor a dictionary.\<close>

fun plain_value :: "yaml \<Rightarrow> bool" where
  "plain_value (YStr _) = False"
| "plain_value (YDict _) = False"
| "plain_value _ = True"

text \<open>
  The five pairs of one action remapping, from the two trimmed prefixes.
\<close>

definition action_pairs :: "string \<Rightarrow> string \<Rightarrow> (string \<times> string) list" where
  "action_pairs f t =
     [(f @ ''/_action/feedback'', t @ ''/_action/feedback''),
      (f @ ''/_action/status'', t @ ''/_action/status''),
      (f @ ''/_action/cancel_goal'', t @ ''/_action/cancel_goal''),
      (f @ ''/_action/get_result'', t @ ''/_action/get_result''),
      (f @ ''/_action/send_goal'', t @ ''/_action/send_goal'')]"

text \<open>
  A valid entry in the words of the specification: \<open>from:to\<close> with exactly one colon
  and both sides non-empty after trimming.
\<close>

definition valid_pair :: "string \<times> string \<Rightarrow> bool" where
  "valid_pair p \<longleftrightarrow>
     CHR '':'' \<notin> set (fst p) \<and> CHR '':'' \<notin> set (snd p) \<and>
     strip (fst p) \<noteq> [] \<and> strip (snd p) \<noteq> []"

definition entry_of :: "string \<times> string \<Rightarrow> yaml" where
  "entry_of p = YStr (fst p @ '':'' @ snd p)"

section \<open>Absent remapping specifications\<close>

text \<open>
  C8. The remapping expander returns the empty list, and no error, for the remapping
  specification \<^verbatim>\<open>None\<close> and for a dictionary that has none of the keys
  \<^verbatim>\<open>topics\<close>, \<^verbatim>\<open>services\<close> and \<^verbatim>\<open>actions\<close>; a parameter block without the key
  \<^verbatim>\<open>ros_remappings\<close>, or with the value \<^verbatim>\<open>None\<close> under it, gives the empty list
  too.
\<close>

theorem get_remappings_absent:
  "get_remappings YNone = Inr [] \<and>
   (map_of d ''topics'' = None \<and> map_of d ''services'' = None \<and>
    map_of d ''actions'' = None \<longrightarrow> get_remappings (YDict d) = Inr []) \<and>
   (map_of ps ''ros_remappings'' = None \<or> map_of ps ''ros_remappings'' = Some YNone
      \<longrightarrow> configure_remapping_list ps = Inr [])"
  by (auto simp: parse_section_def configure_remapping_list_def)

theorem get_remappings_absent_witness:
  "map_of [(''other'', YInt 1)] ''topics'' = None \<and>
   map_of [(''other'', YInt 1)] ''services'' = None \<and>
   map_of [(''other'', YInt 1)] ''actions'' = None \<and>
   get_remappings (YDict [(''other'', YInt 1)]) = Inr [] \<and>
   map_of [(''ros_execution'', YDict [])] ''ros_remappings'' = None \<and>
   configure_remapping_list [(''ros_execution'', YDict [])] = Inr []"
  using get_remappings_absent [of "[(''other'', YInt 1)]" "[(''ros_execution'', YDict [])]"]
  by simp

section \<open>The namespace resolver on single-key chains\<close>

lemma map_of_nest_marker:
  assumes "m \<notin> set ks" "ks \<noteq> [] \<or> map_of l m = None"
  shows "\<exists>d. nest ks (YDict l) = YDict d \<and> map_of d m = None"
  using assms by (cases ks) auto

lemma resolve_descend:
  assumes "nest ks (YDict l) = YDict d" "map_of d ''ros__parameters'' = None"
  shows "get_node_config_and_ns (nest (k # ks) (YDict l)) ns =
         get_node_config_and_ns (nest ks (YDict l)) (if ns \<noteq> [] then ns @ ''/'' @ k else k)"
  using assms by simp

lemma resolve_nest_level:
  assumes "map_of params ''ros__parameters'' = Some (YDict p)"
    and "''ros__parameters'' \<notin> set (tl ks)"
    and "ks \<noteq> [] \<longrightarrow> node \<noteq> ''ros__parameters''"
  shows "get_node_config_and_ns (nest ks (YDict [(node, YDict params)])) ns =
         Inr (YDict [(node, YDict params)],
              fold (\<lambda>k ns. if ns \<noteq> [] then ns @ ''/'' @ k else k) ks ns)"
  using assms(2,3)
proof (induction ks arbitrary: ns)
  case Nil
  then show ?case using assms(1) by simp
next
  case (Cons k ks)
  have "\<exists>d. nest ks (YDict [(node, YDict params)]) = YDict d \<and> map_of d ''ros__parameters'' = None"
    using Cons.prems by (intro map_of_nest_marker) auto
  then obtain d where d: "nest ks (YDict [(node, YDict params)]) = YDict d"
    "map_of d ''ros__parameters'' = None" by blast
  have tl: "''ros__parameters'' \<notin> set (tl ks)"
    using Cons.prems(1) by (cases ks) auto
  have nd: "ks \<noteq> [] \<longrightarrow> node \<noteq> ''ros__parameters''"
    using Cons.prems(2) by simp
  show ?case
    unfolding resolve_descend [OF d] using Cons.IH [OF tl nd] by simp
qed

lemma resolve_nest_key_count:
  assumes "2 \<le> length l"
    and "''ros__parameters'' \<notin> set (tl ks)"
    and "ks \<noteq> [] \<longrightarrow> map_of l ''ros__parameters'' = None"
  shows "get_node_config_and_ns (nest ks (YDict l)) ns = Inl (KeyCount (length l) (map fst l))"
  using assms(2,3)
proof (induction ks arbitrary: ns)
  case Nil
  from assms(1) obtain a b r where "l = a # b # r"
    by (cases l; cases "tl l") auto
  then show ?case by simp
next
  case (Cons k ks)
  have "\<exists>d. nest ks (YDict l) = YDict d \<and> map_of d ''ros__parameters'' = None"
    using Cons.prems by (intro map_of_nest_marker) auto
  then obtain d where d: "nest ks (YDict l) = YDict d"
    "map_of d ''ros__parameters'' = None" by blast
  have tl: "''ros__parameters'' \<notin> set (tl ks)"
    using Cons.prems(1) by (cases ks) auto
  have nd: "ks \<noteq> [] \<longrightarrow> map_of l ''ros__parameters'' = None"
    using Cons.prems(2) by simp
  show ?case
    unfolding resolve_descend [OF d] using Cons.IH [OF tl nd] by simp
qed

lemma fold_namespace:
  "ns \<noteq> [] \<Longrightarrow>
   fold (\<lambda>k ns. if ns \<noteq> [] then ns @ ''/'' @ k else k) ks ns = ns @ concat (map (\<lambda>k. ''/'' @ k) ks)"
  by (induction ks arbitrary: ns) auto

lemma str_join_concat: "str_join sep (k # ks) = k @ concat (map (\<lambda>k. sep @ k) ks)"
  by (induction ks arbitrary: k) auto

lemma fold_namespace_join:
  assumes "ks = [] \<or> hd ks \<noteq> []"
  shows "fold (\<lambda>k ns. if ns \<noteq> [] then ns @ ''/'' @ k else k) ks [] = str_join ''/'' ks"
proof (cases ks)
  case Nil
  then show ?thesis by simp
next
  case (Cons k ks')
  then have "k \<noteq> []" using assms by simp
  then show ?thesis
    unfolding Cons by (simp add: fold_namespace str_join_concat del: str_join.simps)
qed

text \<open>
  C1, as amended. For a document with exactly one key at each level, the keys \<open>ks\<close>,
  down to the first level whose single value (under the node name) is a dictionary that
  has \<^verbatim>\<open>ros__parameters\<close> with a dictionary under it, the resolver returns that
  level, still keyed by the node name and unchanged, and the namespace that joins the
  keys \<open>ks\<close> with slashes: the empty string for no key, and no leading slash. This holds
  when the outermost key is not the empty string.
\<close>

theorem resolve_single_key_chain:
  assumes "map_of params ''ros__parameters'' = Some (YDict p)"
    and "''ros__parameters'' \<notin> set (tl ks)"
    and "ks \<noteq> [] \<longrightarrow> node \<noteq> ''ros__parameters''"
    and "ks = [] \<or> hd ks \<noteq> []"
  shows "get_node_config_and_ns (nest ks (YDict [(node, YDict params)])) [] =
         Inr (YDict [(node, YDict params)], str_join ''/'' ks)"
  using resolve_nest_level [OF assms(1-3), of "[]"] fold_namespace_join [OF assms(4)]
  by simp

theorem resolve_single_key_chain_witness:
  "map_of [(''ros__parameters'', YDict [])] ''ros__parameters'' = Some (YDict []) \<and>
   ''ros__parameters'' \<notin> set (tl [''robot'', ''arm'']) \<and>
   ''arm_node'' \<noteq> ''ros__parameters'' \<and>
   hd [''robot'', ''arm''] \<noteq> [] \<and>
   get_node_config_and_ns
     (YDict [(''robot'', YDict [(''arm'', YDict [(''arm_node'',
        YDict [(''ros__parameters'', YDict [])])])])]) [] =
   Inr (YDict [(''arm_node'', YDict [(''ros__parameters'', YDict [])])], ''robot/arm'')"
  using resolve_single_key_chain
    [of "[(''ros__parameters'', YDict [])]" "[]" "[''robot'', ''arm'']" "''arm_node''"]
  by simp

text \<open>
  C1 as the specification states it fails for an outermost key that is the empty
  string: the namespace of the keys \<open>''''\<close> and \<open>''a''\<close> is \<open>''a''\<close>, and their
  join is \<open>''/a''\<close>.
\<close>

theorem resolve_empty_key_counterexample:
  "get_node_config_and_ns
     (YDict [('''', YDict [(''a'', YDict [(''n'',
        YDict [(''ros__parameters'', YDict [])])])])]) [] =
   Inr (YDict [(''n'', YDict [(''ros__parameters'', YDict [])])], ''a'') \<and>
   str_join ''/'' ['''', ''a''] = ''/a''"
  by simp

text \<open>
  C5. When the resolver, going down the single keys \<open>ks\<close>, arrives at a dictionary
  with two or more keys, it fails with the error that carries the number of keys and
  the list of keys, and returns no result. The resolver arrives there when no level
  above holds \<^verbatim>\<open>ros__parameters\<close> in its single value.
\<close>

theorem resolve_many_keys:
  assumes "2 \<le> length l"
    and "''ros__parameters'' \<notin> set (tl ks)"
    and "ks \<noteq> [] \<longrightarrow> map_of l ''ros__parameters'' = None"
  shows "get_node_config_and_ns (nest ks (YDict l)) ns =
         Inl (KeyCount (length l) (map fst l))"
  using assms by (rule resolve_nest_key_count)

theorem resolve_many_keys_witness:
  "2 \<le> length [(''a'', YInt 1), (''b'', YInt 2)] \<and>
   ''ros__parameters'' \<notin> set (tl [''robot'']) \<and>
   map_of [(''a'', YInt 1), (''b'', YInt 2)] ''ros__parameters'' = None \<and>
   get_node_config_and_ns (YDict [(''robot'', YDict [(''a'', YInt 1), (''b'', YInt 2)])]) [] =
   Inl (KeyCount 2 [''a'', ''b''])"
  using resolve_many_keys [of "[(''a'', YInt 1), (''b'', YInt 2)]" "[''robot'']" "[]"]
  by simp

section \<open>The remapping expander on valid and invalid entries\<close>

lemma str_split_not_Nil: "str_split s c \<noteq> []"
  by (induction s) (auto split: list.splits)

lemma length_str_split: "length (str_split s c) = Suc (count_list s c)"
  by (induction s) (auto split: list.splits simp: str_split_not_Nil)

lemma str_split_no_sep: "c \<notin> set b \<Longrightarrow> str_split b c = [b]"
  by (induction b) auto

lemma str_split_first: "c \<notin> set a \<Longrightarrow> str_split (a @ c # b) c = a # str_split b c"
  by (induction a) auto

lemma str_split_pair:
  "c \<notin> set a \<Longrightarrow> c \<notin> set b \<Longrightarrow> str_split (a @ c # b) c = [a, b]"
  by (simp add: str_split_first str_split_no_sep)

lemma suffixes_action_pairs:
  "map (\<lambda>suffix. (f @ suffix, t @ suffix)) suffixes = action_pairs f t"
  by (simp add: suffixes_def action_pairs_def)

lemma parse_items_valid_entry:
  assumes "valid_pair p"
  shows "parse_items name (entry_of p # items) acc =
         parse_items name items (acc @ [(strip (fst p), strip (snd p))])"
proof -
  have "str_split (fst p @ CHR '':'' # snd p) CHR '':'' = [fst p, snd p]"
    using assms by (intro str_split_pair) (auto simp: valid_pair_def)
  then show ?thesis
    using assms by (simp add: entry_of_def valid_pair_def)
qed

lemma parse_items_valid:
  "\<forall>p\<in>set pairs. valid_pair p \<Longrightarrow>
   parse_items name (map entry_of pairs @ rest) acc =
   parse_items name rest (acc @ map (\<lambda>p. (strip (fst p), strip (snd p))) pairs)"
proof (induction pairs arbitrary: acc)
  case Nil
  then show ?case by simp
next
  case (Cons p pairs)
  then show ?case by (simp add: parse_items_valid_entry)
qed

lemma action_items_valid_entry:
  assumes "valid_pair p"
  shows "action_items (entry_of p # items) acc =
         action_items items (acc @ action_pairs (strip (fst p)) (strip (snd p)))"
proof -
  have "str_split (fst p @ CHR '':'' # snd p) CHR '':'' = [fst p, snd p]"
    using assms by (intro str_split_pair) (auto simp: valid_pair_def)
  then show ?thesis
    using assms by (simp add: entry_of_def valid_pair_def suffixes_action_pairs)
qed

lemma action_items_valid:
  "\<forall>p\<in>set pairs. valid_pair p \<Longrightarrow>
   action_items (map entry_of pairs @ rest) acc =
   action_items rest
     (acc @ concat (map (\<lambda>p. action_pairs (strip (fst p)) (strip (snd p))) pairs))"
proof (induction pairs arbitrary: acc)
  case Nil
  then show ?case by simp
next
  case (Cons p pairs)
  then show ?case by (simp add: action_items_valid_entry)
qed

lemma parse_items_not_string:
  "(\<forall>s. bad \<noteq> YStr s) \<Longrightarrow>
   parse_items name (bad # rest) acc = Inl (EntryNotAString name (type_name bad))"
  by (cases bad) auto

lemma parse_items_colons:
  "count_list s CHR '':'' \<noteq> 1 \<Longrightarrow>
   parse_items name (YStr s # rest) acc = Inl (InvalidFormat name s)"
  by (simp add: length_str_split)

lemma parse_items_empty_side:
  assumes "CHR '':'' \<notin> set a" "CHR '':'' \<notin> set b" "strip a = [] \<or> strip b = []"
  shows "parse_items name (YStr (a @ '':'' @ b) # rest) acc =
         Inl (EmptyField name (a @ '':'' @ b))"
proof -
  have "str_split (a @ CHR '':'' # b) CHR '':'' = [a, b]"
    using assms by (intro str_split_pair) auto
  then show ?thesis using assms(3) by auto
qed

lemma parse_section_not_list:
  "map_of d name = Some v \<Longrightarrow> v \<noteq> YNone \<Longrightarrow> (\<forall>l. v \<noteq> YList l) \<Longrightarrow>
   parse_section d name = Inl (SectionNotAList name)"
  by (cases v) (auto simp: parse_section_def)

text \<open>
  C2. For a list of valid entries \<open>from:to\<close> (exactly one colon, both sides non-empty
  after trimming) in the actions section, the result is, entry after entry, the five
  pairs that append \<^verbatim>\<open>/_action/feedback\<close>, \<^verbatim>\<open>/_action/status\<close>,
  \<^verbatim>\<open>/_action/cancel_goal\<close>, \<^verbatim>\<open>/_action/get_result\<close> and
  \<^verbatim>\<open>/_action/send_goal\<close>, in this order, to the trimmed source prefix and to the
  trimmed destination prefix; the remapping expander returns the same list when the
  actions section is the only one. Whatever follows the valid entries in the list, the
  loop has appended these pairs to its result list when it arrives there.
\<close>

theorem actions_fan_out:
  assumes "\<forall>p\<in>set pairs. valid_pair p"
  shows "get_remappings_for_actions (YList (map entry_of pairs)) =
           Inr (concat (map (\<lambda>p. action_pairs (strip (fst p)) (strip (snd p))) pairs)) \<and>
         action_items (map entry_of pairs @ rest) acc =
           action_items rest
             (acc @ concat (map (\<lambda>p. action_pairs (strip (fst p)) (strip (snd p))) pairs)) \<and>
         (map_of d ''topics'' = None \<and> map_of d ''services'' = None \<and>
          map_of d ''actions'' = Some (YList (map entry_of pairs)) \<longrightarrow>
          get_remappings (YDict d) =
            Inr (concat (map (\<lambda>p. action_pairs (strip (fst p)) (strip (snd p))) pairs)))"
  using action_items_valid [OF assms, of "[]" "[]"] action_items_valid [OF assms, of rest acc]
  by (simp add: parse_section_def)

theorem actions_fan_out_witness:
  "valid_pair ('' g'', ''h '') \<and>
   get_remappings_for_actions (YList [YStr '' g:h '']) =
     Inr [(''g/_action/feedback'', ''h/_action/feedback''),
          (''g/_action/status'', ''h/_action/status''),
          (''g/_action/cancel_goal'', ''h/_action/cancel_goal''),
          (''g/_action/get_result'', ''h/_action/get_result''),
          (''g/_action/send_goal'', ''h/_action/send_goal'')] \<and>
   get_remappings (YDict [(''actions'', YList [YStr '' g:h ''])]) =
     Inr [(''g/_action/feedback'', ''h/_action/feedback''),
          (''g/_action/status'', ''h/_action/status''),
          (''g/_action/cancel_goal'', ''h/_action/cancel_goal''),
          (''g/_action/get_result'', ''h/_action/get_result''),
          (''g/_action/send_goal'', ''h/_action/send_goal'')]"
proof -
  have v: "valid_pair ('' g'', ''h '')"
    by (simp add: valid_pair_def strip_def py_isspace_def)
  have s: "strip '' g'' = ''g''" "strip ''h '' = ''h''"
    by (simp_all add: strip_def py_isspace_def)
  have "\<forall>p\<in>set [('' g'', ''h '')]. valid_pair p" using v by simp
  from actions_fan_out [OF this, of "[]" "[]" "[(''actions'', YList [YStr '' g:h ''])]"]
  show ?thesis using v s by (simp add: entry_of_def action_pairs_def)
qed

text \<open>
  C4, as amended. In a section of the topics and services kind, the entries are split
  at every colon, and an entry is valid when this gives exactly two parts, both non-empty
  after trimming; a list of valid entries gives their trimmed pairs in order. After any
  number of valid entries, the first entry that is not valid ends the call with an
  error: an entry that is not a string with the error that names the section and the
  type of the entry; a string without a colon or with more than one with the error that
  names the section and the entry; a string with one colon and an empty side with the
  error that names the section and the entry. A section that is present with a value
  that is neither \<^verbatim>\<open>None\<close> nor a list ends the call with an error that names the
  section; a section that is present with the value \<^verbatim>\<open>None\<close> contributes
  nothing. The entries \<^verbatim>\<open>a:b:c\<close> and \<^verbatim>\<open>:b\<close> of the specification are rejected.
\<close>

theorem parse_section_validation:
  "((\<forall>p\<in>set pairs. valid_pair p) \<and> map_of d name = Some (YList (map entry_of pairs)) \<longrightarrow>
      parse_section d name = Inr (map (\<lambda>p. (strip (fst p), strip (snd p))) pairs)) \<and>
   ((\<forall>p\<in>set pairs. valid_pair p) \<and>
    map_of d name = Some (YList (map entry_of pairs @ bad # rest)) \<longrightarrow>
      ((\<forall>s. bad \<noteq> YStr s) \<longrightarrow>
         parse_section d name = Inl (EntryNotAString name (type_name bad))) \<and>
      (\<forall>s. bad = YStr s \<and> count_list s CHR '':'' \<noteq> 1 \<longrightarrow>
         parse_section d name = Inl (InvalidFormat name s)) \<and>
      (\<forall>a b. bad = YStr (a @ '':'' @ b) \<and> CHR '':'' \<notin> set a \<and> CHR '':'' \<notin> set b \<and>
             (strip a = [] \<or> strip b = []) \<longrightarrow>
         parse_section d name = Inl (EmptyField name (a @ '':'' @ b)))) \<and>
   (map_of d name = Some v \<and> v \<noteq> YNone \<and> (\<forall>l. v \<noteq> YList l) \<longrightarrow>
      parse_section d name = Inl (SectionNotAList name)) \<and>
   (map_of d name = Some YNone \<longrightarrow> parse_section d name = Inr []) \<and>
   parse_section [(''topics'', YList [YStr ''a:b:c''])] ''topics'' =
     Inl (InvalidFormat ''topics'' ''a:b:c'') \<and>
   parse_section [(''topics'', YList [YStr '':b''])] ''topics'' =
     Inl (EmptyField ''topics'' '':b'')"
proof -
  have valid: "parse_section d name = Inr (map (\<lambda>p. (strip (fst p), strip (snd p))) pairs)"
    if "\<forall>p\<in>set pairs. valid_pair p" "map_of d name = Some (YList (map entry_of pairs))"
    using parse_items_valid [OF that(1), of name "[]" "[]"] that(2)
    by (simp add: parse_section_def)
  have first: "parse_section d name = parse_items name (bad # rest)
                 (map (\<lambda>p. (strip (fst p), strip (snd p))) pairs)"
    if "\<forall>p\<in>set pairs. valid_pair p"
      "map_of d name = Some (YList (map entry_of pairs @ bad # rest))"
    using parse_items_valid [OF that(1), of name "bad # rest" "[]"] that(2)
    by (simp add: parse_section_def)
  have notstr: "parse_section d name = Inl (EntryNotAString name (type_name bad))"
    if "\<forall>p\<in>set pairs. valid_pair p"
      "map_of d name = Some (YList (map entry_of pairs @ bad # rest))" "\<forall>s. bad \<noteq> YStr s"
    using first [OF that(1,2)] parse_items_not_string [OF that(3)] by simp
  have colons: "parse_section d name = Inl (InvalidFormat name s)"
    if "\<forall>p\<in>set pairs. valid_pair p"
      "map_of d name = Some (YList (map entry_of pairs @ bad # rest))"
      "bad = YStr s" "count_list s CHR '':'' \<noteq> 1" for s
    using first [OF that(1,2)] parse_items_colons [OF that(4)] that(3) by simp
  have empty: "parse_section d name = Inl (EmptyField name (a @ '':'' @ b))"
    if "\<forall>p\<in>set pairs. valid_pair p"
      "map_of d name = Some (YList (map entry_of pairs @ bad # rest))"
      "bad = YStr (a @ '':'' @ b)" "CHR '':'' \<notin> set a" "CHR '':'' \<notin> set b"
      "strip a = [] \<or> strip b = []" for a b
    using first [OF that(1,2)] parse_items_empty_side [OF that(4,5,6)] that(3) by simp
  have notlist: "parse_section d name = Inl (SectionNotAList name)"
    if "map_of d name = Some v" "v \<noteq> YNone" "\<forall>l. v \<noteq> YList l"
    using that by (rule parse_section_not_list)
  have none: "parse_section d name = Inr []" if "map_of d name = Some YNone"
    using that by (simp add: parse_section_def)
  have ex1: "parse_section [(''topics'', YList [YStr ''a:b:c''])] ''topics'' =
     Inl (InvalidFormat ''topics'' ''a:b:c'')"
    by (simp add: parse_section_def)
  have ex2: "parse_section [(''topics'', YList [YStr '':b''])] ''topics'' =
     Inl (EmptyField ''topics'' '':b'')"
    by (simp add: parse_section_def strip_def)
  show ?thesis
    using valid notstr colons empty notlist none ex1 ex2 by blast
qed

theorem parse_section_validation_witness:
  "valid_pair (''a'', ''b'') \<and>
   parse_section [(''topics'', YList [YStr ''a:b''])] ''topics'' = Inr [(''a'', ''b'')] \<and>
   parse_section [(''services'', YList [YStr ''a:b'', YInt 7])] ''services'' =
     Inl (EntryNotAString ''services'' ''int'') \<and>
   parse_section [(''topics'', YList [YStr ''a:b'', YStr ''ab''])] ''topics'' =
     Inl (InvalidFormat ''topics'' ''ab'') \<and>
   parse_section [(''topics'', YList [YStr ''a:b'', YStr ''a: ''])] ''topics'' =
     Inl (EmptyField ''topics'' ''a: '') \<and>
   parse_section [(''topics'', YStr ''a:b'')] ''topics'' = Inl (SectionNotAList ''topics'') \<and>
   parse_section [(''topics'', YNone)] ''topics'' = Inr []"
proof -
  have v: "valid_pair (''a'', ''b'')"
    by (simp add: valid_pair_def strip_def py_isspace_def)
  have s: "strip ''a'' = ''a''" "strip ''b'' = ''b''" "strip '' '' = []"
    by (simp_all add: strip_def py_isspace_def)
  have vs: "\<forall>p\<in>set [(''a'', ''b'')]. valid_pair p" using v by simp
  have 1: "parse_section [(''topics'', YList [YStr ''a:b''])] ''topics'' = Inr [(''a'', ''b'')]"
    using parse_section_validation
      [of "[(''a'', ''b'')]" "[(''topics'', YList [YStr ''a:b''])]" "''topics''"] vs s
    by (simp add: entry_of_def)
  have 2: "parse_section [(''services'', YList [YStr ''a:b'', YInt 7])] ''services'' =
     Inl (EntryNotAString ''services'' ''int'')"
    using parse_section_validation
      [of "[(''a'', ''b'')]" "[(''services'', YList [YStr ''a:b'', YInt 7])]" "''services''"
        "YInt 7" "[]"] vs
    by (simp add: entry_of_def)
  have 3: "parse_section [(''topics'', YList [YStr ''a:b'', YStr ''ab''])] ''topics'' =
     Inl (InvalidFormat ''topics'' ''ab'')"
    using parse_section_validation
      [of "[(''a'', ''b'')]" "[(''topics'', YList [YStr ''a:b'', YStr ''ab''])]" "''topics''"
        "YStr ''ab''" "[]"] vs
    by (simp add: entry_of_def)
  have 4: "parse_section [(''topics'', YList [YStr ''a:b'', YStr ''a: ''])] ''topics'' =
     Inl (EmptyField ''topics'' ''a: '')"
  proof -
    have "\<forall>a b. YStr ''a: '' = YStr (a @ '':'' @ b) \<and> CHR '':'' \<notin> set a \<and> CHR '':'' \<notin> set b \<and>
             (strip a = [] \<or> strip b = []) \<longrightarrow>
         parse_section [(''topics'', YList [YStr ''a:b'', YStr ''a: ''])] ''topics'' =
           Inl (EmptyField ''topics'' (a @ '':'' @ b))"
      using parse_section_validation
        [of "[(''a'', ''b'')]" "[(''topics'', YList [YStr ''a:b'', YStr ''a: ''])]" "''topics''"
          "YStr ''a: ''" "[]"] vs
      by (simp add: entry_of_def)
    from this [rule_format, of "''a''" "'' ''"] show ?thesis using s by simp
  qed
  have 5: "parse_section [(''topics'', YStr ''a:b'')] ''topics'' = Inl (SectionNotAList ''topics'')"
    using parse_section_validation
      [of _ "[(''topics'', YStr ''a:b'')]" "''topics''" _ _ "YStr ''a:b''"]
    by simp
  have 6: "parse_section [(''topics'', YNone)] ''topics'' = Inr []"
    using parse_section_validation [of _ "[(''topics'', YNone)]" "''topics''"]
    by simp
  show ?thesis using v 1 2 3 4 5 6 by simp
qed

text \<open>
  C4 as the specification states it fails in two places: a section that is present with
  the value \<^verbatim>\<open>None\<close> is not a list and raises nothing, and the error for an entry
  that is not a string names the type of the entry, not the entry, so that the entries
  \<open>1\<close> and \<open>2\<close> give the same error.
\<close>

theorem parse_section_counterexample:
  "parse_section [(''topics'', YNone)] ''topics'' = Inr [] \<and>
   parse_section [(''topics'', YList [YInt 1])] ''topics'' =
     Inl (EntryNotAString ''topics'' ''int'') \<and>
   parse_section [(''topics'', YList [YInt 2])] ''topics'' =
     Inl (EntryNotAString ''topics'' ''int'')"
  by (simp add: parse_section_def)

section \<open>The search of the patterns in a string\<close>

lemma strip_prefix_Some: "strip_prefix p s = Some r \<longleftrightarrow> s = p @ r"
  by (induction p s rule: strip_prefix.induct) auto

lemma re_search_None: "re_search m s = None \<longleftrightarrow> (\<forall>i\<le>length s. m (drop i s) = None)"
proof (induction s)
  case Nil
  then show ?case by simp
next
  case (Cons c cs)
  have "(\<forall>i\<le>length (c # cs). m (drop i (c # cs)) = None) \<longleftrightarrow>
        m (c # cs) = None \<and> (\<forall>i\<le>length cs. m (drop i cs) = None)"
    (is "?L \<longleftrightarrow> ?R")
  proof
    assume l: ?L
    have "m (drop 0 (c # cs)) = None" using l by blast
    moreover have "\<forall>i\<le>length cs. m (drop i cs) = None"
    proof (intro allI impI)
      fix i assume "i \<le> length cs"
      then have "m (drop (Suc i) (c # cs)) = None" using l by auto
      then show "m (drop i cs) = None" by simp
    qed
    ultimately show ?R by simp
  next
    assume r: ?R
    show ?L
    proof (intro allI impI)
      fix i assume "i \<le> length (c # cs)"
      then show "m (drop i (c # cs)) = None" using r by (cases i) auto
    qed
  qed
  then show ?case using Cons by (simp split: option.splits)
qed

lemma re_search_Some:
  "re_search m s = Some g \<longleftrightarrow>
     (\<exists>i\<le>length s. m (drop i s) = Some g \<and> (\<forall>j<i. m (drop j s) = None))"
proof (induction s)
  case Nil
  then show ?case by simp
next
  case (Cons c cs)
  show ?case
  proof (cases "m (c # cs)")
    case None
    have "(\<exists>i\<le>length (c # cs). m (drop i (c # cs)) = Some g \<and> (\<forall>j<i. m (drop j (c # cs)) = None))
        \<longleftrightarrow> (\<exists>i\<le>length cs. m (drop i cs) = Some g \<and> (\<forall>j<i. m (drop j cs) = None))"
      (is "?L \<longleftrightarrow> ?R")
    proof
      assume ?L
      then obtain i where i: "i \<le> length (c # cs)" "m (drop i (c # cs)) = Some g"
        "\<forall>j<i. m (drop j (c # cs)) = None" by blast
      from i(2) None obtain i' where i': "i = Suc i'" by (cases i) auto
      have "\<forall>j<i'. m (drop j cs) = None"
      proof (intro allI impI)
        fix j assume "j < i'"
        then have "m (drop (Suc j) (c # cs)) = None" using i(3) i' by blast
        then show "m (drop j cs) = None" by simp
      qed
      then show ?R using i i' by auto
    next
      assume ?R
      then obtain i where i: "i \<le> length cs" "m (drop i cs) = Some g"
        "\<forall>j<i. m (drop j cs) = None" by blast
      have "\<forall>j<Suc i. m (drop j (c # cs)) = None"
      proof (intro allI impI)
        fix j assume "j < Suc i"
        then show "m (drop j (c # cs)) = None" using i(3) None by (cases j) auto
      qed
      then show ?L using i by (intro exI[of _ "Suc i"]) auto
    qed
    then show ?thesis using Cons None by simp
  next
    case (Some g')
    have "(\<exists>i\<le>length (c # cs). m (drop i (c # cs)) = Some g \<and> (\<forall>j<i. m (drop j (c # cs)) = None))
        \<longleftrightarrow> g' = g"
      (is "?L \<longleftrightarrow> ?R")
    proof
      assume ?L
      then obtain i where i: "m (drop i (c # cs)) = Some g"
        "\<forall>j<i. m (drop j (c # cs)) = None" by blast
      have "i = 0"
      proof (rule ccontr)
        assume "i \<noteq> 0"
        then have "m (drop 0 (c # cs)) = None" using i(2) by blast
        then show False using Some by simp
      qed
      then show ?R using i Some by simp
    next
      assume ?R
      then show ?L using Some by (intro exI[of _ 0]) auto
    qed
    then show ?thesis using Some by simp
  qed
qed

lemma takeWhile_stop:
  assumes "\<forall>x\<in>set xs. P x" "ys = [] \<or> \<not> P (hd ys)"
  shows "takeWhile P (xs @ ys) = xs" "dropWhile P (xs @ ys) = ys"
proof -
  have "takeWhile P ys = []" "dropWhile P ys = ys"
    using assms(2) by (cases ys; simp)+
  then show "takeWhile P (xs @ ys) = xs" "dropWhile P (xs @ ys) = ys"
    using assms(1) by (simp_all add: takeWhile_append2 dropWhile_append2)
qed

lemma dropWhile_line:
  "dropWhile (\<lambda>c. c \<noteq> newline) r = [] \<or> hd (dropWhile (\<lambda>c. c \<noteq> newline) r) = newline"
  using hd_dropWhile [of "\<lambda>c. c \<noteq> newline" r] by auto

lemma match_pattern1_Some:
  "match_pattern1 s = Some (pkg, rest) \<longleftrightarrow>
     (\<exists>post. s = ''package://'' @ pkg @ ''/'' @ rest @ post \<and>
        pkg \<noteq> [] \<and> CHR ''/'' \<notin> set pkg \<and> rest \<noteq> [] \<and> newline \<notin> set rest \<and>
        (post = [] \<or> hd post = newline))"
  (is "?L \<longleftrightarrow> ?R")
proof
  assume l: ?L
  then obtain r where r: "strip_prefix ''package://'' s = Some r"
    by (auto simp: match_pattern1_def split: option.splits)
  then have s: "s = ''package://'' @ r" by (simp only: strip_prefix_Some)
  let ?t = "takeWhile (\<lambda>c. c \<noteq> CHR ''/'') r"
  let ?d = "dropWhile (\<lambda>c. c \<noteq> CHR ''/'') r"
  from l r obtain x r' where d: "?d = x # r'" and pkg: "pkg = ?t" "pkg \<noteq> []"
    and rest: "rest = takeWhile (\<lambda>c. c \<noteq> newline) r'" "rest \<noteq> []"
    by (auto simp: match_pattern1_def Let_def split: list.splits if_splits)
  have x: "x = CHR ''/''"
    using hd_dropWhile [of "\<lambda>c. c \<noteq> CHR ''/''" r] d by auto
  have "r = ?t @ ?d" by simp
  then have r2: "r = pkg @ ''/'' @ r'" using d x pkg by simp
  have r3: "r' = rest @ dropWhile (\<lambda>c. c \<noteq> newline) r'" using rest by simp
  have "CHR ''/'' \<notin> set pkg" using pkg(1) by (auto dest: set_takeWhileD)
  moreover have "newline \<notin> set rest" using rest(1) by (auto dest: set_takeWhileD)
  moreover have "s = ''package://'' @ pkg @ ''/'' @ rest @ dropWhile (\<lambda>c. c \<noteq> newline) r'"
    using s r2 r3 by simp
  ultimately show ?R
    using pkg(2) rest(2) dropWhile_line [of r'] by blast
next
  assume ?R
  then obtain post where s: "s = ''package://'' @ pkg @ ''/'' @ rest @ post"
    and c: "pkg \<noteq> []" "CHR ''/'' \<notin> set pkg" "rest \<noteq> []" "newline \<notin> set rest"
      "post = [] \<or> hd post = newline" by blast
  have p: "strip_prefix ''package://'' s = Some (pkg @ ''/'' @ rest @ post)"
    unfolding s by (simp only: strip_prefix_Some)
  have 1: "takeWhile (\<lambda>c. c \<noteq> CHR ''/'') (pkg @ ''/'' @ rest @ post) = pkg"
    "dropWhile (\<lambda>c. c \<noteq> CHR ''/'') (pkg @ ''/'' @ rest @ post) = ''/'' @ rest @ post"
    using c(2) by (auto intro!: takeWhile_stop)
  have 2: "takeWhile (\<lambda>c. c \<noteq> newline) (rest @ post) = rest"
    using c(4,5) by (auto intro!: takeWhile_stop)
  show ?L
    unfolding match_pattern1_def p using 1 2 c(1,3) by simp
qed

lemma match_pattern1_any:
  assumes "pkg \<noteq> []" "CHR ''/'' \<notin> set pkg" "rest \<noteq> []" "newline \<notin> set rest"
  shows "match_pattern1 (''package://'' @ pkg @ ''/'' @ rest @ post) =
         Some (pkg, rest @ takeWhile (\<lambda>c. c \<noteq> newline) post)"
proof -
  let ?t = "takeWhile (\<lambda>c. c \<noteq> newline) post"
  let ?d = "dropWhile (\<lambda>c. c \<noteq> newline) post"
  have "newline \<notin> set (rest @ ?t)" using assms(4) by (auto dest: set_takeWhileD)
  moreover have "''package://'' @ pkg @ ''/'' @ rest @ post =
                 ''package://'' @ pkg @ ''/'' @ (rest @ ?t) @ ?d" by simp
  ultimately show ?thesis
    using assms(1-3) dropWhile_line [of post]
    by (subst match_pattern1_Some) (intro exI [of _ ?d], simp)
qed

lemma match_pattern2_Some:
  "match_pattern2 s = Some g \<longleftrightarrow>
     (\<exists>path post. s = ''file://'' @ ''/'' @ path @ post \<and> g = ''/'' @ path \<and>
        path \<noteq> [] \<and> newline \<notin> set path \<and> (post = [] \<or> hd post = newline))"
  (is "?L \<longleftrightarrow> ?R")
proof
  assume l: ?L
  then obtain r where r: "strip_prefix ''file://'' s = Some r"
    by (auto simp: match_pattern2_def split: option.splits)
  then have s: "s = ''file://'' @ r" by (simp only: strip_prefix_Some)
  from l r obtain r' where r': "r = CHR ''/'' # r'"
    and g: "g = CHR ''/'' # takeWhile (\<lambda>c. c \<noteq> newline) r'"
      "takeWhile (\<lambda>c. c \<noteq> newline) r' \<noteq> []"
    by (auto simp: match_pattern2_def Let_def split: list.splits if_splits)
  let ?t = "takeWhile (\<lambda>c. c \<noteq> newline) r'"
  let ?d = "dropWhile (\<lambda>c. c \<noteq> newline) r'"
  have "s = ''file://'' @ ''/'' @ ?t @ ?d" using s r' by simp
  moreover have "newline \<notin> set ?t" by (auto dest: set_takeWhileD)
  ultimately show ?R
    using g dropWhile_line [of r'] by (intro exI [of _ ?t] exI [of _ ?d]) simp
next
  assume ?R
  then obtain path post where s: "s = ''file://'' @ ''/'' @ path @ post"
    and c: "g = ''/'' @ path" "path \<noteq> []" "newline \<notin> set path"
      "post = [] \<or> hd post = newline" by blast
  have p: "strip_prefix ''file://'' s = Some (''/'' @ path @ post)"
    unfolding s by (simp only: strip_prefix_Some)
  have 2: "takeWhile (\<lambda>c. c \<noteq> newline) (path @ post) = path"
    using c(3,4) by (auto intro!: takeWhile_stop)
  show ?L
    unfolding match_pattern2_def p using 2 c(1,2) by simp
qed

lemma match_pattern2_any:
  assumes "path \<noteq> []" "newline \<notin> set path"
  shows "match_pattern2 (''file://'' @ ''/'' @ path @ post) =
         Some (''/'' @ path @ takeWhile (\<lambda>c. c \<noteq> newline) post)"
proof -
  let ?t = "takeWhile (\<lambda>c. c \<noteq> newline) post"
  let ?d = "dropWhile (\<lambda>c. c \<noteq> newline) post"
  have "newline \<notin> set (path @ ?t)" using assms(2) by (auto dest: set_takeWhileD)
  moreover have "''file://'' @ ''/'' @ path @ post = ''file://'' @ ''/'' @ (path @ ?t) @ ?d"
    by simp
  ultimately show ?thesis
    using assms(1) dropWhile_line [of post]
    by (subst match_pattern2_Some) (intro exI [of _ "path @ ?t"] exI [of _ ?d], simp)
qed

lemma re_search_found:
  assumes "m (drop i s) \<noteq> None" "i \<le> length s"
  shows "re_search m s \<noteq> None"
proof
  assume "re_search m s = None"
  then have "\<forall>i\<le>length s. m (drop i s) = None" by (rule re_search_None [THEN iffD1])
  then have "m (drop i s) = None" using assms(2) by simp
  then show False using assms(1) by simp
qed

lemma search_pattern1_decomp:
  assumes "re_search match_pattern1 s = Some (pkg, rest)"
  shows "\<exists>pre post. s = pre @ ''package://'' @ pkg @ ''/'' @ rest @ post \<and>
           pkg \<noteq> [] \<and> CHR ''/'' \<notin> set pkg \<and> rest \<noteq> [] \<and> newline \<notin> set rest \<and>
           (post = [] \<or> hd post = newline) \<and>
           (\<forall>j<length pre. match_pattern1 (drop j s) = None)"
proof -
  from assms obtain i where i: "i \<le> length s" "match_pattern1 (drop i s) = Some (pkg, rest)"
    "\<forall>j<i. match_pattern1 (drop j s) = None"
    unfolding re_search_Some by blast
  from i(2) obtain post where p: "drop i s = ''package://'' @ pkg @ ''/'' @ rest @ post"
    "pkg \<noteq> []" "CHR ''/'' \<notin> set pkg" "rest \<noteq> []" "newline \<notin> set rest"
    "post = [] \<or> hd post = newline"
    unfolding match_pattern1_Some by blast
  have "take i s @ drop i s = s" by simp
  then have eq: "take i s @ ''package://'' @ pkg @ ''/'' @ rest @ post = s"
    unfolding p(1) .
  have nm: "\<forall>j<length (take i s). match_pattern1 (drop j s) = None"
    using i(1,3) by simp
  show ?thesis
  proof (intro exI conjI)
    show "s = take i s @ ''package://'' @ pkg @ ''/'' @ rest @ post" by (rule eq [symmetric])
  qed (use p(2-6) nm in blast)+
qed


lemma search_pattern1_contains:
  "re_search match_pattern1 s \<noteq> None \<longleftrightarrow> contains_package_uri s"
proof
  assume "re_search match_pattern1 s \<noteq> None"
  then obtain pkg rest where "re_search match_pattern1 s = Some (pkg, rest)" by auto
  from search_pattern1_decomp [OF this] obtain pre post where
    "s = pre @ ''package://'' @ pkg @ ''/'' @ rest @ post"
    "pkg \<noteq> []" "CHR ''/'' \<notin> set pkg" "rest \<noteq> []" "newline \<notin> set rest"
    by blast
  then have "\<exists>pre pkg rest post.
        s = pre @ ''package://'' @ pkg @ ''/'' @ rest @ post \<and>
        pkg \<noteq> [] \<and> CHR ''/'' \<notin> set pkg \<and> rest \<noteq> [] \<and> newline \<notin> set rest"
    by (intro exI conjI)
  then show "contains_package_uri s"
    by (simp only: contains_package_uri_def)
next
  assume "contains_package_uri s"
  then obtain pre pkg rest post where s: "s = pre @ ''package://'' @ pkg @ ''/'' @ rest @ post"
    and c: "pkg \<noteq> []" "CHR ''/'' \<notin> set pkg" "rest \<noteq> []" "newline \<notin> set rest"
    unfolding contains_package_uri_def by blast
  have "drop (length pre) s = ''package://'' @ pkg @ ''/'' @ rest @ post"
    unfolding s by simp
  then have "match_pattern1 (drop (length pre) s) \<noteq> None"
    by (simp only: match_pattern1_any [OF c, of post] option.distinct not_False_eq_True)
  moreover have "length pre \<le> length s" unfolding s by simp
  ultimately show "re_search match_pattern1 s \<noteq> None"
    by (rule re_search_found)
qed

lemma search_pattern1_None:
  "re_search match_pattern1 s = None \<longleftrightarrow> \<not> contains_package_uri s"
  using search_pattern1_contains [of s] by blast

lemma search_pattern2_decomp:
  assumes "re_search match_pattern2 s = Some g"
  shows "\<exists>pre path post. s = pre @ ''file://'' @ ''/'' @ path @ post \<and> g = ''/'' @ path \<and>
           path \<noteq> [] \<and> newline \<notin> set path \<and> (post = [] \<or> hd post = newline) \<and>
           (\<forall>j<length pre. match_pattern2 (drop j s) = None)"
proof -
  from assms obtain i where i: "i \<le> length s" "match_pattern2 (drop i s) = Some g"
    "\<forall>j<i. match_pattern2 (drop j s) = None"
    unfolding re_search_Some by blast
  from i(2) obtain path post where p: "drop i s = ''file://'' @ ''/'' @ path @ post"
    "g = ''/'' @ path" "path \<noteq> []" "newline \<notin> set path" "post = [] \<or> hd post = newline"
    unfolding match_pattern2_Some by blast
  have "take i s @ drop i s = s" by simp
  then have eq: "take i s @ ''file://'' @ ''/'' @ path @ post = s"
    unfolding p(1) .
  have nm: "\<forall>j<length (take i s). match_pattern2 (drop j s) = None"
    using i(1,3) by simp
  show ?thesis
  proof (intro exI conjI)
    show "s = take i s @ ''file://'' @ ''/'' @ path @ post" by (rule eq [symmetric])
  qed (use p(2-5) nm in blast)+
qed


lemma search_pattern2_contains:
  "re_search match_pattern2 s \<noteq> None \<longleftrightarrow> contains_file_uri s"
proof
  assume "re_search match_pattern2 s \<noteq> None"
  then obtain g where "re_search match_pattern2 s = Some g" by auto
  from search_pattern2_decomp [OF this] obtain pre path post where
    "s = pre @ ''file://'' @ ''/'' @ path @ post" "path \<noteq> []" "newline \<notin> set path"
    by blast
  then have "\<exists>pre path post.
        s = pre @ ''file://'' @ ''/'' @ path @ post \<and> path \<noteq> [] \<and> newline \<notin> set path"
    by (intro exI conjI)
  then show "contains_file_uri s"
    by (simp only: contains_file_uri_def)
next
  assume "contains_file_uri s"
  then obtain pre path post where s: "s = pre @ ''file://'' @ ''/'' @ path @ post"
    and c: "path \<noteq> []" "newline \<notin> set path"
    unfolding contains_file_uri_def by blast
  have "drop (length pre) s = ''file://'' @ ''/'' @ path @ post"
    unfolding s by simp
  then have "match_pattern2 (drop (length pre) s) \<noteq> None"
    by (simp only: match_pattern2_any [OF c, of post] option.distinct not_False_eq_True)
  moreover have "length pre \<le> length s" unfolding s by simp
  ultimately show "re_search match_pattern2 s \<noteq> None"
    by (rule re_search_found)
qed

lemma search_pattern2_None:
  "re_search match_pattern2 s = None \<longleftrightarrow> \<not> contains_file_uri s"
  using search_pattern2_contains [of s] by blast

section \<open>The path expander on the entries of a parameter map\<close>

lemma expand_string_neither:
  assumes "\<not> contains_package_uri s" "\<not> contains_file_uri s"
  shows "expand_string lookup s = Inr s"
proof -
  have "re_search match_pattern1 s = None" "re_search match_pattern2 s = None"
    using assms by (simp_all only: search_pattern1_None search_pattern2_None not_False_eq_True)
  then show ?thesis by (simp add: expand_string_def)
qed

lemma expand_items_plain:
  "expand_items lookup d = (d', e) \<Longrightarrow> map_of d k = Some w \<Longrightarrow> plain_value w \<Longrightarrow>
   map_of d' k = Some w"
proof (induction d arbitrary: d' e)
  case Nil
  then show ?case by simp
next
  case (Cons a d)
  obtain k' v where a: "a = (k', v)" by (cases a)
  show ?case
    using Cons.prems Cons.IH unfolding a
    by (cases v) (auto split: prod.splits option.splits sum.splits if_splits)
qed

lemma expand_items_dict:
  "expand_items lookup d = (d', e) \<Longrightarrow> map_of d k = Some (YDict x) \<Longrightarrow>
   map_of d' k = Some (YDict x) \<or>
   (\<exists>x' e'. expand_items lookup x = (x', e') \<and> map_of d' k = Some (YDict x'))"
proof (induction d arbitrary: d' e)
  case Nil
  then show ?case by simp
next
  case (Cons a d)
  obtain k' v where a: "a = (k', v)" by (cases a)
  show ?case
    using Cons.prems Cons.IH unfolding a
    by (cases v) (auto split: prod.splits option.splits sum.splits if_splits)
qed

lemma expand_items_dict_ok:
  assumes "expand_items lookup d = (d', None)" "map_of d k = Some (YDict x)"
  shows "\<exists>x'. expand_items lookup x = (x', None) \<and> map_of d' k = Some (YDict x')"
  using assms
proof (induction d arbitrary: d')
  case Nil
  then show ?case by simp
next
  case (Cons a d)
  obtain k' v where a: "a = (k', v)" by (cases a)
  show ?case
    using Cons.prems Cons.IH unfolding a
    by (cases v) (auto split: prod.splits option.splits sum.splits if_splits)
qed

lemma expand_items_string_ok:
  assumes "expand_items lookup d = (d', None)" "map_of d k = Some (YStr v)"
  shows "\<exists>v'. expand_string lookup v = Inr v' \<and> map_of d' k = Some (YStr v')"
  using assms
proof (induction d arbitrary: d')
  case Nil
  then show ?case by simp
next
  case (Cons a d)
  obtain k' w where a: "a = (k', w)" by (cases a)
  show ?case
    using Cons.prems Cons.IH unfolding a
    by (cases w) (auto split: prod.splits option.splits sum.splits if_splits)
qed

lemma expand_filenames_plain: "plain_value w \<Longrightarrow> expand_filenames lookup w = (w, None)"
  by (cases w) simp_all

lemma yaml_at_Cons_dict:
  assumes "yaml_at (k # ks) y = Some w"
  obtains d u where "y = YDict d" "map_of d k = Some u" "yaml_at ks u = Some w"
  using assms by (cases y) (auto split: option.splits)

lemma expand_at_plain:
  "expand_filenames lookup y = (y', e) \<Longrightarrow> yaml_at p y = Some w \<Longrightarrow> plain_value w \<Longrightarrow>
   yaml_at p y' = Some w"
proof (induction p arbitrary: y y' e)
  case Nil
  then show ?case by (simp add: expand_filenames_plain)
next
  case (Cons k ks)
  from Cons.prems(2) obtain d u where y: "y = YDict d" and u: "map_of d k = Some u"
    and w: "yaml_at ks u = Some w" by (rule yaml_at_Cons_dict)
  obtain d' where d': "expand_items lookup d = (d', e)" and y': "y' = YDict d'"
    using Cons.prems(1) unfolding y by (auto split: prod.splits)
  show ?case
  proof (cases ks)
    case Nil
    then have "u = w" using w by simp
    then have "map_of d' k = Some w"
      using expand_items_plain [OF d' _ Cons.prems(3)] u by simp
    then show ?thesis unfolding y' Nil by simp
  next
    case (Cons k2 ks2)
    from w obtain x where x: "u = YDict x"
      unfolding Cons by (rule yaml_at_Cons_dict)
    from expand_items_dict [OF d' u [unfolded x]]
    consider "map_of d' k = Some (YDict x)"
      | x' e' where "expand_items lookup x = (x', e')" "map_of d' k = Some (YDict x')"
      by blast
    then show ?thesis
    proof cases
      case 1
      then show ?thesis unfolding y' using w x by simp
    next
      case 2
      have "expand_filenames lookup (YDict x) = (YDict x', e')"
        using 2(1) by simp
      from Cons.IH [OF this w [unfolded x] Cons.prems(3)]
      show ?thesis unfolding y' using 2(2) by simp
    qed
  qed
qed

lemma expand_at_string:
  "expand_filenames lookup y = (y', None) \<Longrightarrow> yaml_at p y = Some (YStr v) \<Longrightarrow> p \<noteq> [] \<Longrightarrow>
   \<exists>v'. expand_string lookup v = Inr v' \<and> yaml_at p y' = Some (YStr v')"
proof (induction p arbitrary: y y')
  case Nil
  then show ?case by simp
next
  case (Cons k ks)
  from Cons.prems(2) obtain d u where y: "y = YDict d" and u: "map_of d k = Some u"
    and w: "yaml_at ks u = Some (YStr v)" by (rule yaml_at_Cons_dict)
  obtain d' where d': "expand_items lookup d = (d', None)" and y': "y' = YDict d'"
    using Cons.prems(1) unfolding y by (auto split: prod.splits)
  show ?case
  proof (cases ks)
    case Nil
    then have "u = YStr v" using w by simp
    then obtain v' where "expand_string lookup v = Inr v'" "map_of d' k = Some (YStr v')"
      using expand_items_string_ok [OF d'] u by blast
    then show ?thesis unfolding y' Nil by simp
  next
    case (Cons k2 ks2)
    from w obtain x where x: "u = YDict x"
      unfolding Cons by (rule yaml_at_Cons_dict)
    from expand_items_dict_ok [OF d' u [unfolded x]]
    obtain x' where x': "expand_items lookup x = (x', None)" "map_of d' k = Some (YDict x')"
      by blast
    have "expand_filenames lookup (YDict x) = (YDict x', None)"
      using x'(1) by simp
    from Cons.IH [OF this w [unfolded x]] Cons
    show ?thesis unfolding y' using x'(2) by simp
  qed
qed

lemma expand_unchanged:
  "(\<forall>s\<in>set (param_strings y). \<not> contains_package_uri s \<and> \<not> contains_file_uri s) \<longrightarrow>
     expand_filenames lookup y = (y, None)"
  "(\<forall>s\<in>set (item_strings d). \<not> contains_package_uri s \<and> \<not> contains_file_uri s) \<longrightarrow>
     expand_items lookup d = (d, None)"
proof (induction y and d rule: param_strings_item_strings.induct)
  case (10 k s items)
  then show ?case by (simp add: expand_string_neither)
qed simp_all

lemma expand_string_package:
  assumes "re_search match_pattern1 v = Some (pkg, rest)"
  shows "expand_string lookup v =
           (case lookup pkg of
              None \<Rightarrow> Inl (PackageNotFoundError pkg)
            | Some dir \<Rightarrow> Inr (path_join dir rest))"
  using assms by (simp add: expand_string_def)

lemma expand_string_file:
  assumes "re_search match_pattern1 v = None" "re_search match_pattern2 v = Some g"
  shows "expand_string lookup v = Inr g"
  using assms by (simp add: expand_string_def)

lemma expand_items_single:
  "expand_items lookup [(k, YStr v)] =
     (case expand_string lookup v of
        Inl e \<Rightarrow> ([(k, YStr v)], Some e)
      | Inr v' \<Rightarrow> ([(k, YStr v')], None))"
  by (simp split: sum.splits)

text \<open>
  C3. A string value that contains a substring of the form \<^verbatim>\<open>package://{pkg}/{rest}\<close>,
  anywhere in it, splits at such a substring so that the expander uses
  \<^verbatim>\<open>join(lookup(pkg), rest)\<close>: a map with this one entry becomes the map with the
  joined path, or stays as it is with the error of the package index when the lookup
  fails; and in every parameter map that the expander goes through without an error,
  the value at the same place, at any depth of nested maps, is the joined path. The
  substring used is the first one from the left, and its \<open>rest\<close> runs to the end of
  the line. With
  \<^verbatim>\<open>lookup("foo") = "/opt/foo"\<close>, the map \<^verbatim>\<open>{"p": "package://foo/bar/baz.txt"}\<close>
  becomes \<^verbatim>\<open>{"p": "/opt/foo/bar/baz.txt"}\<close>.
\<close>

theorem expand_package_uri:
  assumes "contains_package_uri v"
  shows "(\<exists>pre pkg rest post.
            v = pre @ ''package://'' @ pkg @ ''/'' @ rest @ post \<and>
            pkg \<noteq> [] \<and> CHR ''/'' \<notin> set pkg \<and> rest \<noteq> [] \<and> newline \<notin> set rest \<and>
            (post = [] \<or> hd post = newline) \<and>
            (\<forall>j<length pre. match_pattern1 (drop j v) = None) \<and>
            expand_items lookup [(k, YStr v)] =
              (case lookup pkg of
                 Some dir \<Rightarrow> ([(k, YStr (path_join dir rest))], None)
               | None \<Rightarrow> ([(k, YStr v)], Some (PackageNotFoundError pkg))) \<and>
            (\<forall>y y' p. expand_filenames lookup y = (y', None) \<and> p \<noteq> [] \<and>
                 yaml_at p y = Some (YStr v) \<longrightarrow>
               (\<exists>dir. lookup pkg = Some dir \<and>
                  yaml_at p y' = Some (YStr (path_join dir rest))))) \<and>
         expand_filenames (\<lambda>p. if p = ''foo'' then Some ''/opt/foo'' else None)
           (YDict [(''p'', YStr ''package://foo/bar/baz.txt'')]) =
         (YDict [(''p'', YStr ''/opt/foo/bar/baz.txt'')], None)"
proof -
  from assms have "re_search match_pattern1 v \<noteq> None"
    by (simp only: search_pattern1_contains)
  then obtain pkg rest where m: "re_search match_pattern1 v = Some (pkg, rest)" by auto
  from search_pattern1_decomp [OF m] obtain pre post where
    d: "v = pre @ ''package://'' @ pkg @ ''/'' @ rest @ post"
    "pkg \<noteq> []" "CHR ''/'' \<notin> set pkg" "rest \<noteq> []" "newline \<notin> set rest"
    "post = [] \<or> hd post = newline"
    "\<forall>j<length pre. match_pattern1 (drop j v) = None"
    by blast
  note es = expand_string_package [OF m, of lookup]
  have one: "expand_items lookup [(k, YStr v)] =
              (case lookup pkg of
                 Some dir \<Rightarrow> ([(k, YStr (path_join dir rest))], None)
               | None \<Rightarrow> ([(k, YStr v)], Some (PackageNotFoundError pkg)))"
    unfolding expand_items_single es by (simp split: option.splits)
  have deep: "\<exists>dir. lookup pkg = Some dir \<and> yaml_at p y' = Some (YStr (path_join dir rest))"
    if "expand_filenames lookup y = (y', None)" "p \<noteq> []" "yaml_at p y = Some (YStr v)"
    for y y' p
  proof -
    from expand_at_string [OF that(1,3,2)] obtain v' where
      v': "expand_string lookup v = Inr v'" "yaml_at p y' = Some (YStr v')" by blast
    from v'(1) obtain dir where "lookup pkg = Some dir" "v' = path_join dir rest"
      unfolding es by (cases "lookup pkg") auto
    then show ?thesis using v'(2) by simp
  qed
  have ex: "expand_filenames (\<lambda>p. if p = ''foo'' then Some ''/opt/foo'' else None)
           (YDict [(''p'', YStr ''package://foo/bar/baz.txt'')]) =
         (YDict [(''p'', YStr ''/opt/foo/bar/baz.txt'')], None)"
    by (simp add: expand_string_def match_pattern1_def newline_def path_join_def)
  have "\<exists>pre pkg rest post.
            v = pre @ ''package://'' @ pkg @ ''/'' @ rest @ post \<and>
            pkg \<noteq> [] \<and> CHR ''/'' \<notin> set pkg \<and> rest \<noteq> [] \<and> newline \<notin> set rest \<and>
            (post = [] \<or> hd post = newline) \<and>
            (\<forall>j<length pre. match_pattern1 (drop j v) = None) \<and>
            expand_items lookup [(k, YStr v)] =
              (case lookup pkg of
                 Some dir \<Rightarrow> ([(k, YStr (path_join dir rest))], None)
               | None \<Rightarrow> ([(k, YStr v)], Some (PackageNotFoundError pkg))) \<and>
            (\<forall>y y' p. expand_filenames lookup y = (y', None) \<and> p \<noteq> [] \<and>
                 yaml_at p y = Some (YStr v) \<longrightarrow>
               (\<exists>dir. lookup pkg = Some dir \<and>
                  yaml_at p y' = Some (YStr (path_join dir rest))))"
  proof (intro exI conjI)
    show "v = pre @ ''package://'' @ pkg @ ''/'' @ rest @ post" by (rule d(1))
  qed (use d(2-7) one deep in blast)+
  then show ?thesis using ex by (rule conjI)
qed

theorem expand_package_uri_witness:
  "contains_package_uri ''see package://foo/bar'' \<and>
   (\<exists>pre pkg rest post.
      ''see package://foo/bar'' = pre @ ''package://'' @ pkg @ ''/'' @ rest @ post \<and>
      pkg \<noteq> [] \<and> CHR ''/'' \<notin> set pkg \<and> rest \<noteq> [] \<and> newline \<notin> set rest \<and>
      expand_items (\<lambda>p. Some ''/opt/foo'') [(''p'', YStr ''see package://foo/bar'')] =
        ([(''p'', YStr (path_join ''/opt/foo'' rest))], None))"
proof -
  have "''see package://foo/bar'' = ''see '' @ ''package://'' @ ''foo'' @ ''/'' @ ''bar'' @ [] \<and>
        ''foo'' \<noteq> [] \<and> CHR ''/'' \<notin> set ''foo'' \<and> ''bar'' \<noteq> [] \<and> newline \<notin> set ''bar''"
    by (simp add: newline_def)
  then have h: "contains_package_uri ''see package://foo/bar''"
    unfolding contains_package_uri_def by (intro exI)
  from expand_package_uri [OF h, of "\<lambda>p. Some ''/opt/foo''" "''p''"]
  show ?thesis using h by auto
qed

text \<open>
  C6, as amended. A string value that contains no substring of the form
  \<^verbatim>\<open>package://{pkg}/{rest}\<close> and contains a substring \<^verbatim>\<open>file://{path}\<close> whose path
  starts with a slash splits at such a substring so that the expander stores the path
  with the scheme stripped: a map with this one entry becomes the map with the path, with
  no error, and in every parameter map that the expander goes through without an error,
  the value at the same place, at any depth of nested maps, is the path. The substring
  used is the first one from the left, and its path runs to the end of the line. The map
  \<^verbatim>\<open>{"p": "file:///etc/x.yaml"}\<close> becomes \<^verbatim>\<open>{"p": "/etc/x.yaml"}\<close>.
\<close>

theorem expand_file_uri:
  assumes "contains_file_uri v" and "\<not> contains_package_uri v"
  shows "(\<exists>pre path post.
            v = pre @ ''file://'' @ ''/'' @ path @ post \<and> path \<noteq> [] \<and> newline \<notin> set path \<and>
            (post = [] \<or> hd post = newline) \<and>
            (\<forall>j<length pre. match_pattern2 (drop j v) = None) \<and>
            expand_items lookup [(k, YStr v)] = ([(k, YStr (''/'' @ path))], None) \<and>
            (\<forall>y y' p. expand_filenames lookup y = (y', None) \<and> p \<noteq> [] \<and>
                 yaml_at p y = Some (YStr v) \<longrightarrow>
               yaml_at p y' = Some (YStr (''/'' @ path)))) \<and>
         expand_filenames lookup (YDict [(''p'', YStr ''file:///etc/x.yaml'')]) =
         (YDict [(''p'', YStr ''/etc/x.yaml'')], None)"
proof -
  from assms(2) have n: "re_search match_pattern1 v = None"
    by (simp only: search_pattern1_None not_False_eq_True)
  from assms(1) have "re_search match_pattern2 v \<noteq> None"
    by (simp only: search_pattern2_contains)
  then obtain g where m: "re_search match_pattern2 v = Some g" by auto
  from search_pattern2_decomp [OF m] obtain pre path post where
    d: "v = pre @ ''file://'' @ ''/'' @ path @ post" "g = ''/'' @ path"
    "path \<noteq> []" "newline \<notin> set path"
    "post = [] \<or> hd post = newline"
    "\<forall>j<length pre. match_pattern2 (drop j v) = None"
    by blast
  have es: "expand_string lookup v = Inr (''/'' @ path)"
    using expand_string_file [OF n m, of lookup] d(2) by simp
  have one: "expand_items lookup [(k, YStr v)] = ([(k, YStr (''/'' @ path))], None)"
    unfolding expand_items_single es by simp
  have deep: "yaml_at p y' = Some (YStr (''/'' @ path))"
    if "expand_filenames lookup y = (y', None)" "p \<noteq> []" "yaml_at p y = Some (YStr v)"
    for y y' p
  proof -
    from expand_at_string [OF that(1,3,2)] obtain v' where
      v': "expand_string lookup v = Inr v'" "yaml_at p y' = Some (YStr v')" by blast
    from v'(1) have "v' = ''/'' @ path" unfolding es by simp
    then show ?thesis using v'(2) by simp
  qed
  have ex: "expand_filenames lookup (YDict [(''p'', YStr ''file:///etc/x.yaml'')]) =
         (YDict [(''p'', YStr ''/etc/x.yaml'')], None)"
    by (simp add: expand_string_def match_pattern1_def match_pattern2_def newline_def)
  have "\<exists>pre path post.
            v = pre @ ''file://'' @ ''/'' @ path @ post \<and> path \<noteq> [] \<and> newline \<notin> set path \<and>
            (post = [] \<or> hd post = newline) \<and>
            (\<forall>j<length pre. match_pattern2 (drop j v) = None) \<and>
            expand_items lookup [(k, YStr v)] = ([(k, YStr (''/'' @ path))], None) \<and>
            (\<forall>y y' p. expand_filenames lookup y = (y', None) \<and> p \<noteq> [] \<and>
                 yaml_at p y = Some (YStr v) \<longrightarrow>
               yaml_at p y' = Some (YStr (''/'' @ path)))"
  proof (intro exI conjI)
    show "v = pre @ ''file://'' @ ''/'' @ path @ post" by (rule d(1))
  qed (use d(3-6) one deep in blast)+
  then show ?thesis using ex by (rule conjI)
qed

theorem expand_file_uri_witness:
  "contains_file_uri ''see file:///etc/x.yaml'' \<and>
   \<not> contains_package_uri ''see file:///etc/x.yaml'' \<and>
   (\<exists>pre path post.
      ''see file:///etc/x.yaml'' = pre @ ''file://'' @ ''/'' @ path @ post \<and>
      path \<noteq> [] \<and> newline \<notin> set path \<and>
      expand_items (\<lambda>p. None) [(''p'', YStr ''see file:///etc/x.yaml'')] =
        ([(''p'', YStr (''/'' @ path))], None))"
proof -
  have "''see file:///etc/x.yaml'' = ''see '' @ ''file://'' @ ''/'' @ ''etc/x.yaml'' @ [] \<and>
        ''etc/x.yaml'' \<noteq> [] \<and> newline \<notin> set ''etc/x.yaml''"
    by (simp add: newline_def)
  then have h: "contains_file_uri ''see file:///etc/x.yaml''"
    unfolding contains_file_uri_def by (intro exI)
  have "re_search match_pattern1 ''see file:///etc/x.yaml'' = None"
    by (simp add: match_pattern1_def)
  then have n: "\<not> contains_package_uri ''see file:///etc/x.yaml''"
    by (rule search_pattern1_None [THEN iffD1])
  from expand_file_uri [OF h n, of "\<lambda>p. None" "''p''"]
  show ?thesis using h n by auto
qed

text \<open>
  C6 as the specification states it fails for a value that contains both forms: the
  pattern of \<^verbatim>\<open>package://\<close> is tried first, so the value
  \<^verbatim>\<open>file:///a/package://b/c\<close>, which contains \<^verbatim>\<open>file://\<close> with the path
  \<^verbatim>\<open>/a/package://b/c\<close>, becomes the path in the package \<^verbatim>\<open>b\<close>.
\<close>

theorem expand_file_uri_counterexample:
  "re_search match_pattern2 ''file:///a/package://b/c'' = Some ''/a/package://b/c'' \<and>
   expand_filenames (\<lambda>p. Some ''/opt/b'') (YDict [(''p'', YStr ''file:///a/package://b/c'')]) =
     (YDict [(''p'', YStr ''/opt/b/c'')], None)"
  by (simp add: expand_string_def match_pattern1_def match_pattern2_def newline_def
      path_join_def)

text \<open>
  C7. Whatever the expander does to a parameter map, and whether or not it ends with an
  error, a value that is neither a string nor a map (a number, a boolean, a list,
  \<^verbatim>\<open>None\<close>) is the same afterwards, at any depth of nested maps; the elements of a
  list are not visited, and \<^verbatim>\<open>{"p": ["package://foo/bar"]}\<close> is left as it is.
\<close>

theorem expand_keeps_plain_values:
  "(expand_filenames lookup y = (y', e) \<and> yaml_at p y = Some w \<and> plain_value w \<longrightarrow>
      yaml_at p y' = Some w) \<and>
   expand_filenames lookup (YDict [(''p'', YList [YStr ''package://foo/bar''])]) =
     (YDict [(''p'', YList [YStr ''package://foo/bar''])], None)"
  using expand_at_plain [of lookup y y' e p w] by simp

theorem expand_keeps_plain_values_witness:
  "expand_filenames (\<lambda>p. None)
     (YDict [(''f'', YStr ''file:///etc/x.yaml''),
             (''n'', YDict [(''l'', YList [YStr ''file:///etc/x.yaml''])])]) =
     (YDict [(''f'', YStr ''/etc/x.yaml''),
             (''n'', YDict [(''l'', YList [YStr ''file:///etc/x.yaml''])])], None) \<and>
   yaml_at [''n'', ''l'']
     (YDict [(''f'', YStr ''file:///etc/x.yaml''),
             (''n'', YDict [(''l'', YList [YStr ''file:///etc/x.yaml''])])]) =
     Some (YList [YStr ''file:///etc/x.yaml'']) \<and>
   plain_value (YList [YStr ''file:///etc/x.yaml'']) \<and>
   yaml_at [''n'', ''l'']
     (YDict [(''f'', YStr ''/etc/x.yaml''),
             (''n'', YDict [(''l'', YList [YStr ''file:///etc/x.yaml''])])]) =
     Some (YList [YStr ''file:///etc/x.yaml''])"
proof -
  have x: "expand_filenames (\<lambda>p. None)
     (YDict [(''f'', YStr ''file:///etc/x.yaml''),
             (''n'', YDict [(''l'', YList [YStr ''file:///etc/x.yaml''])])]) =
     (YDict [(''f'', YStr ''/etc/x.yaml''),
             (''n'', YDict [(''l'', YList [YStr ''file:///etc/x.yaml''])])], None)"
    by (simp add: expand_string_def match_pattern1_def match_pattern2_def newline_def)
  from expand_keeps_plain_values
    [of "\<lambda>p. None"
      "YDict [(''f'', YStr ''file:///etc/x.yaml''),
              (''n'', YDict [(''l'', YList [YStr ''file:///etc/x.yaml''])])]"
      "YDict [(''f'', YStr ''/etc/x.yaml''),
              (''n'', YDict [(''l'', YList [YStr ''file:///etc/x.yaml''])])]"
      None "[''n'', ''l'']" "YList [YStr ''file:///etc/x.yaml'']"]
  show ?thesis using x by simp
qed

text \<open>
  C9. When no string value of a parameter map, at any depth of nested maps, contains a
  substring of the form \<^verbatim>\<open>package://{pkg}/{rest}\<close> or \<^verbatim>\<open>file://{path}\<close> with a
  path that starts with a slash, the expander leaves the map as it is and ends without an
  error, so that a second application gives the same map again.
\<close>

theorem expand_idempotent_without_uri:
  assumes "\<forall>s\<in>set (param_strings y). \<not> contains_package_uri s \<and> \<not> contains_file_uri s"
  shows "expand_filenames lookup y = (y, None) \<and>
         expand_filenames lookup (fst (expand_filenames lookup y)) = expand_filenames lookup y"
  using assms expand_unchanged(1) [of y lookup] by simp

theorem expand_idempotent_without_uri_witness:
  "\<not> contains_package_uri ''base_link'' \<and> \<not> contains_file_uri ''base_link'' \<and>
   \<not> contains_package_uri ''/etc/x.yaml'' \<and> \<not> contains_file_uri ''/etc/x.yaml'' \<and>
   param_strings
     (YDict [(''frame'', YStr ''base_link''), (''rate'', YInt 10),
             (''map'', YDict [(''path'', YStr ''/etc/x.yaml'')])]) =
     [''base_link'', ''/etc/x.yaml''] \<and>
   expand_filenames (\<lambda>p. None)
     (YDict [(''frame'', YStr ''base_link''), (''rate'', YInt 10),
             (''map'', YDict [(''path'', YStr ''/etc/x.yaml'')])]) =
     (YDict [(''frame'', YStr ''base_link''), (''rate'', YInt 10),
             (''map'', YDict [(''path'', YStr ''/etc/x.yaml'')])], None)"
proof -
  have "re_search match_pattern1 ''base_link'' = None"
    "re_search match_pattern1 ''/etc/x.yaml'' = None"
    by (simp_all add: match_pattern1_def)
  then have 1: "\<not> contains_package_uri ''base_link''" "\<not> contains_package_uri ''/etc/x.yaml''"
    by (simp_all only: search_pattern1_None [symmetric])
  have "re_search match_pattern2 ''base_link'' = None"
    "re_search match_pattern2 ''/etc/x.yaml'' = None"
    by (simp_all add: match_pattern2_def)
  then have 2: "\<not> contains_file_uri ''base_link''" "\<not> contains_file_uri ''/etc/x.yaml''"
    by (simp_all only: search_pattern2_None [symmetric])
  have ps: "param_strings
     (YDict [(''frame'', YStr ''base_link''), (''rate'', YInt 10),
             (''map'', YDict [(''path'', YStr ''/etc/x.yaml'')])]) =
     [''base_link'', ''/etc/x.yaml'']"
    by simp
  have "\<forall>s\<in>set (param_strings
     (YDict [(''frame'', YStr ''base_link''), (''rate'', YInt 10),
             (''map'', YDict [(''path'', YStr ''/etc/x.yaml'')])])).
       \<not> contains_package_uri s \<and> \<not> contains_file_uri s"
    unfolding ps using 1 2 by simp
  from expand_idempotent_without_uri [OF this, of "\<lambda>p. None"]
  show ?thesis using 1 2 ps by simp
qed





end
